theory Spec2Isabelle
  imports Main
begin

section \<open>Data model\<close>

text \<open>
  The daemon of \<^verbatim>\<open>lib/rucio/daemons/abacus/collection_replica.py\<close> works on
  collaborators that are imported from other modules: the heartbeat handler, the query
  \<^verbatim>\<open>get_cleaned_updated_collection_replicas\<close>, the routine
  \<^verbatim>\<open>update_collection_replica\<close>, the schema check \<^verbatim>\<open>is_old_db\<close>,
  the runner \<^verbatim>\<open>run_daemon\<close> and Python's threads. Each call to one of them is
  recorded as an event of the world's trace, and what the call returns is decided by an
  oracle that reads the trace so far, the call included.

  The clock is read four times in \<^verbatim>\<open>run_once\<close>. Three of the reads come right before
  a recorded call with no read of the stop event in between, so that an interrupt during
  such a read cannot be told from one during that call; they are not recorded, and the
  times are left out of the log messages. The fourth read,
  \<^verbatim>\<open>start_time = time.time()\<close>, comes between the read of the stop event and the call
  of the work applier: it is the event \<open>Time\<close>.
\<close>

text \<open>A collection replica is a Python dict; its entries are kept as an association list.\<close>

type_synonym replica = "(string \<times> string) list"

datatype level = DEBUG | INFO

datatype message =
    Index_query_time nat
  | Did_not_get_any_work
  | Update_took string

datatype exn =
    DatabaseException string
  | KeyError string
  | IndexError
  | External string

datatype event =
    Setup_logging string
  | Is_old_db
  | Main_info string
  | Live
  | Time
  | Fetch int int int
  | Log level message
  | Update replica
  | Thread_start nat bool int int
  | Is_alive nat
  | Join nat

text \<open>
  The world: the calls made so far and the module-level event \<^verbatim>\<open>graceful_stop\<close>.
\<close>

record world =
  trace :: "event list"
  graceful_stop :: bool

text \<open>
  A heartbeat handler: \<open>live\<close> gives the pair \<open>(worker_number, total_workers)\<close>
  that \<^verbatim>\<open>heartbeat_handler.live()\<close> returns; the logger it returns as well is
  \<open>logger\<close> below.
\<close>

record heartbeat_handler =
  live :: "event list \<Rightarrow> int \<times> int"

text \<open>
  The environment. \<open>signal\<close> tells whether the interrupt handler \<^verbatim>\<open>stop\<close> has
  run by the end of the latest call; \<open>fetch_ret\<close> and \<open>update_ret\<close> are the
  outcomes of the work source and of the work applier, which may raise;
  \<open>is_alive_ret\<close> is the answer of \<^verbatim>\<open>Thread.is_alive\<close>. The runner
  \<open>run_daemon\<close> of \<^verbatim>\<open>rucio.daemons.common\<close> is a parameter: it gets
  \<^verbatim>\<open>once\<close>, \<^verbatim>\<open>executable\<close>, \<^verbatim>\<open>partition_wait_time\<close>,
  \<^verbatim>\<open>sleep_time\<close> and \<^verbatim>\<open>run_once_fnc\<close>.
\<close>

record env =
  signal :: "event list \<Rightarrow> bool"
  is_old_db :: "event list \<Rightarrow> bool"
  fetch_ret :: "event list \<Rightarrow> exn + replica list"
  update_ret :: "event list \<Rightarrow> exn option"
  is_alive_ret :: "event list \<Rightarrow> bool"
  run_daemon :: "bool \<Rightarrow> string \<Rightarrow> int \<Rightarrow> int \<Rightarrow>
    (heartbeat_handler \<Rightarrow> world \<Rightarrow> (exn + bool) \<times> world) \<Rightarrow> world \<Rightarrow> (exn + unit) \<times> world"

section \<open>The external calls\<close>

text \<open>\<^verbatim>\<open>stop\<close>: the graceful exit, \<^verbatim>\<open>graceful_stop.set()\<close>.\<close>

definition stop :: "world \<Rightarrow> world" where
  "stop w = w\<lparr>graceful_stop := True\<rparr>"

text \<open>
  One external call: it is appended to the trace, and the interrupt handler may have run by
  the time the call returns.
\<close>

definition emit :: "env \<Rightarrow> event \<Rightarrow> world \<Rightarrow> world" where
  "emit env e w =
     (let w' = w\<lparr>trace := trace w @ [e]\<rparr>
      in if signal env (trace w') then stop w' else w')"

definition heartbeat_live :: "env \<Rightarrow> heartbeat_handler \<Rightarrow> world \<Rightarrow> (int \<times> int) \<times> world" where
  "heartbeat_live env hh w = (let w' = emit env Live w in (live hh (trace w'), w'))"

definition get_cleaned_updated_collection_replicas ::
  "env \<Rightarrow> int \<Rightarrow> int \<Rightarrow> int \<Rightarrow> world \<Rightarrow> (exn + replica list) \<times> world" where
  "get_cleaned_updated_collection_replicas env total_workers worker_number limit w =
     (let w' = emit env (Fetch total_workers worker_number limit) w
      in (fetch_ret env (trace w'), w'))"

definition update_collection_replica :: "env \<Rightarrow> replica \<Rightarrow> world \<Rightarrow> exn option \<times> world" where
  "update_collection_replica env replica w =
     (let w' = emit env (Update replica) w in (update_ret env (trace w'), w'))"

definition time_time :: "env \<Rightarrow> world \<Rightarrow> world" where
  "time_time env w = emit env Time w"

definition logger :: "env \<Rightarrow> level \<Rightarrow> message \<Rightarrow> world \<Rightarrow> world" where
  "logger env lv msg w = emit env (Log lv msg) w"

text \<open>\<^verbatim>\<open>d[k]\<close> on a dict raises \<^verbatim>\<open>KeyError\<close> for a missing key.\<close>

definition getitem :: "replica \<Rightarrow> string \<Rightarrow> exn + string" where
  "getitem d k = (case map_of d k of None \<Rightarrow> Inl (KeyError k) | Some v \<Rightarrow> Inr v)"

section \<open>The polling cycle\<close>

text \<open>
  The \<^verbatim>\<open>for replica in replicas\<close> loop of \<^verbatim>\<open>run_once\<close>: liveness is
  refreshed, the stop event is read (\<^verbatim>\<open>break\<close> when set), the clock is read, the
  replica is updated and the update is logged with the replica's id.
\<close>

fun update_replicas ::
  "env \<Rightarrow> heartbeat_handler \<Rightarrow> replica list \<Rightarrow> world \<Rightarrow> (exn + unit) \<times> world" where
  "update_replicas env hh [] w = (Inr (), w)"
| "update_replicas env hh (replica # rest) w =
     (let (_, w1) = heartbeat_live env hh w in
      if graceful_stop w1 then (Inr (), w1)
      else
        (case update_collection_replica env replica (time_time env w1) of
           (Some e, w2) \<Rightarrow> (Inl e, w2)
         | (None, w2) \<Rightarrow>
             (case getitem replica ''id'' of
                Inl e \<Rightarrow> (Inl e, w2)
              | Inr i \<Rightarrow> update_replicas env hh rest (logger env DEBUG (Update_took i) w2))))"

definition run_once ::
  "env \<Rightarrow> heartbeat_handler \<Rightarrow> int \<Rightarrow> world \<Rightarrow> (exn + bool) \<times> world" where
  "run_once env hh limit w =
     (let ((worker_number, total_workers), w1) = heartbeat_live env hh w in
      case get_cleaned_updated_collection_replicas env (total_workers - 1) worker_number limit w1 of
        (Inl e, w2) \<Rightarrow> (Inl e, w2)
      | (Inr replicas, w2) \<Rightarrow>
          (let w3 = logger env DEBUG (Index_query_time (length replicas)) w2 in
           if replicas = [] then (Inr True, logger env INFO Did_not_get_any_work w3)
           else
             (case update_replicas env hh replicas w3 of
                (Inl e, w4) \<Rightarrow> (Inl e, w4)
              | (Inr _, w4) \<Rightarrow> (Inr (limit \<noteq> 0 \<and> int (length replicas) < limit), w4))))"

section \<open>The daemon loop and the driver\<close>

definition DAEMON_NAME :: string where
  "DAEMON_NAME = ''abacus-collection-replica''"

text \<open>The defaults of the keyword arguments of \<^verbatim>\<open>collection_replica_update\<close>.\<close>

definition default_limit :: int where
  "default_limit = 1000"

definition default_sleep_time :: int where
  "default_sleep_time = 10"

definition collection_replica_update ::
  "env \<Rightarrow> bool \<Rightarrow> int \<Rightarrow> int \<Rightarrow> world \<Rightarrow> (exn + unit) \<times> world" where
  "collection_replica_update env once limit sleep_time w =
     run_daemon env once DAEMON_NAME 1 sleep_time (\<lambda>hh. run_once env hh limit) w"

text \<open>
  The wait of \<^verbatim>\<open>run\<close>:
  \<^verbatim>\<open>while thread_list[0].is_alive(): [t.join(timeout=3.14) for t in thread_list]\<close>.
  Indexing an empty list raises \<^verbatim>\<open>IndexError\<close>; the loop does not return (\<open>None\<close>)
  while the first thread stays alive for ever.
\<close>

definition thread_is_alive :: "env \<Rightarrow> nat \<Rightarrow> world \<Rightarrow> bool \<times> world" where
  "thread_is_alive env t w = (let w' = emit env (Is_alive t) w in (is_alive_ret env (trace w'), w'))"

definition join_all :: "env \<Rightarrow> nat list \<Rightarrow> world \<Rightarrow> world" where
  "join_all env thread_list w = fold (\<lambda>t. emit env (Join t)) thread_list w"

partial_function (option) wait_threads ::
  "env \<Rightarrow> nat list \<Rightarrow> world \<Rightarrow> ((exn + unit) \<times> world) option" where
  "wait_threads env thread_list w =
     (case thread_list of
        [] \<Rightarrow> Some (Inl IndexError, w)
      | t # _ \<Rightarrow>
          (let (alive, w1) = thread_is_alive env t w in
           if alive then wait_threads env thread_list (join_all env thread_list w1)
           else Some (Inr (), w1)))"

declare wait_threads.simps [code]

definition stale_message :: string where
  "stale_message = ''Database was not updated, daemon won'' @ [CHR 0x27] @ ''t start''"

text \<open>
  \<^verbatim>\<open>run\<close>. A thread that is started runs \<^verbatim>\<open>collection_replica_update\<close> with the
  keyword arguments of its \<open>Thread_start\<close> event, concurrently with the driver; the
  driver sees it through \<open>is_alive_ret\<close> only.
\<close>

definition run ::
  "env \<Rightarrow> bool \<Rightarrow> int \<Rightarrow> int \<Rightarrow> int \<Rightarrow> world \<Rightarrow> ((exn + unit) \<times> world) option" where
  "run env once threads sleep_time limit w =
     (let w1 = emit env (Setup_logging DAEMON_NAME) w;
          w2 = emit env Is_old_db w1
      in if is_old_db env (trace w2) then Some (Inl (DatabaseException stale_message), w2)
         else if once then
           (let w3 = emit env (Main_info ''main: executing one iteration only'') w2
            in Some (collection_replica_update env once default_limit default_sleep_time w3))
         else
           (let w3 = emit env (Main_info ''main: starting threads'') w2;
                thread_list = [0..<nat threads];
                w4 = fold (\<lambda>t. emit env (Thread_start t once sleep_time limit)) thread_list w3;
                w5 = emit env (Main_info ''main: waiting for interrupts'') w4
            in wait_threads env thread_list w5))"

section \<open>Reading the trace\<close>

text \<open>Several calls in a row.\<close>

definition emits :: "env \<Rightarrow> event list \<Rightarrow> world \<Rightarrow> world" where
  "emits env es w = fold (emit env) es w"

text \<open>The calls made from world \<open>w\<close> up to world \<open>w'\<close>.\<close>

definition events_between :: "world \<Rightarrow> world \<Rightarrow> event list" where
  "events_between w w' = drop (length (trace w)) (trace w')"

text \<open>The replicas handed to the work applier, in the order of the calls.\<close>

fun applied :: "event list \<Rightarrow> replica list" where
  "applied [] = []"
| "applied (Update r # es) = r # applied es"
| "applied (_ # es) = applied es"

text \<open>The arguments \<open>(total_workers, worker_number, limit)\<close> of the calls to the work source.\<close>

fun fetches :: "event list \<Rightarrow> (int \<times> int \<times> int) list" where
  "fetches [] = []"
| "fetches (Fetch tw wn l # es) = (tw, wn, l) # fetches es"
| "fetches (_ # es) = fetches es"

text \<open>What the work source answers in the cycle that \<open>run_once\<close> starts in world \<open>w\<close>.\<close>

definition fetched :: "env \<Rightarrow> heartbeat_handler \<Rightarrow> int \<Rightarrow> world \<Rightarrow> exn + replica list" where
  "fetched env hh limit w =
     (let ((worker_number, total_workers), w1) = heartbeat_live env hh w
      in fst (get_cleaned_updated_collection_replicas env (total_workers - 1) worker_number limit w1))"

text \<open>The first two calls of a cycle: the liveness refresh and the query.\<close>

definition cycle_head :: "heartbeat_handler \<Rightarrow> int \<Rightarrow> world \<Rightarrow> event list" where
  "cycle_head hh limit w =
     [Live, Fetch (snd (live hh (trace w @ [Live])) - 1) (fst (live hh (trace w @ [Live]))) limit]"

section \<open>Sample environments\<close>

definition world0 :: world where
  "world0 = \<lparr>trace = [], graceful_stop = False\<rparr>"

definition fixed_handler :: "int \<Rightarrow> int \<Rightarrow> heartbeat_handler" where
  "fixed_handler worker_number total_workers = \<lparr>live = (\<lambda>_. (worker_number, total_workers))\<rparr>"

text \<open>
  Modelled from the spec: \<^verbatim>\<open>run_daemon\<close> of \<^verbatim>\<open>rucio.daemons.common\<close> is not
  among the sources. With \<^verbatim>\<open>once = true\<close> the daemon loop performs exactly one
  polling cycle regardless of its outcome and returns without sleeping; an error of the
  cycle propagates out of the loop. Only this single-iteration mode is described here, for
  a lone worker, and it is used in the sample environments only.
\<close>

definition run_daemon_once ::
  "bool \<Rightarrow> string \<Rightarrow> int \<Rightarrow> int \<Rightarrow>
    (heartbeat_handler \<Rightarrow> world \<Rightarrow> (exn + bool) \<times> world) \<Rightarrow> world \<Rightarrow> (exn + unit) \<times> world" where
  "run_daemon_once once executable partition_wait_time sleep_time run_once_fnc w =
     (case run_once_fnc (fixed_handler 0 1) w of
        (Inl e, w') \<Rightarrow> (Inl e, w')
      | (Inr _, w') \<Rightarrow> (Inr (), w'))"

text \<open>
  No interrupt, a fresh schema, a work source that answers \<open>batch\<close>, a work applier that
  succeeds, threads that have ended.
\<close>

definition quiet_env :: "replica list \<Rightarrow> env" where
  "quiet_env batch =
     \<lparr>signal = (\<lambda>_. False), is_old_db = (\<lambda>_. False), fetch_ret = (\<lambda>_. Inr batch),
      update_ret = (\<lambda>_. None), is_alive_ret = (\<lambda>_. False), run_daemon = run_daemon_once\<rparr>"

definition item :: "string \<Rightarrow> replica" where
  "item i = [(''id'', i)]"

definition ten_items :: "replica list" where
  "ten_items = map (\<lambda>c. item [c]) ''abcdefghij''"

text \<open>The interrupt arrives while the \<open>k\<close>-th replica is updated.\<close>

definition stop_after :: "nat \<Rightarrow> replica list \<Rightarrow> env" where
  "stop_after k batch = (quiet_env batch)\<lparr>signal := (\<lambda>t. k \<le> length (applied t))\<rparr>"

text \<open>The interrupt arrives during the \<open>k\<close>-th read of the clock in the loop.\<close>

definition stop_at_clock :: "nat \<Rightarrow> replica list \<Rightarrow> env" where
  "stop_at_clock k batch =
     (quiet_env batch)\<lparr>signal := (\<lambda>t. k \<le> length (filter (\<lambda>e. e = Time) t))\<rparr>"

definition failing_update :: "replica \<Rightarrow> replica list \<Rightarrow> env" where
  "failing_update bad batch =
     (quiet_env batch)\<lparr>update_ret :=
        (\<lambda>t. if last t = Update bad then Some (External ''update failed'') else None)\<rparr>"

definition failing_fetch :: env where
  "failing_fetch = (quiet_env [])\<lparr>fetch_ret := (\<lambda>_. Inl (External ''query failed''))\<rparr>"

definition stale_env :: env where
  "stale_env = (quiet_env [])\<lparr>is_old_db := (\<lambda>_. True)\<rparr>"

text \<open>
  The first thread is alive when the driver looks at it for the first time and has ended
  when it looks again; every other thread stays alive.
\<close>

definition first_ends_early :: env where
  "first_ends_early =
     (quiet_env [])\<lparr>is_alive_ret :=
        (\<lambda>t. if last t = Is_alive 0 then length (filter (\<lambda>e. e = Is_alive 0) t) < 2
             else True)\<rparr>"

section \<open>Traces of the calls\<close>

lemma trace_emit: "trace (emit env e w) = trace w @ [e]"
  by (simp add: emit_def stop_def Let_def)

lemma stop_emit: "graceful_stop w \<Longrightarrow> graceful_stop (emit env e w)"
  by (simp add: emit_def stop_def Let_def)

lemma emits_Nil: "emits env [] w = w"
  by (simp add: emits_def)

lemma emits_Cons: "emits env (e # es) w = emits env es (emit env e w)"
  by (simp add: emits_def)

lemma emits_append: "emits env (es1 @ es2) w = emits env es2 (emits env es1 w)"
  by (simp add: emits_def)

lemma trace_emits: "trace (emits env es w) = trace w @ es"
  by (induction es arbitrary: w) (simp_all add: emits_Nil emits_Cons trace_emit)

lemma stop_emits: "graceful_stop w \<Longrightarrow> graceful_stop (emits env es w)"
  by (induction es arbitrary: w) (simp_all add: emits_Nil emits_Cons stop_emit)

lemma events_between_emits: "events_between w (emits env es w) = es"
  by (simp add: events_between_def trace_emits)

lemma events_between_eq: "trace w' = trace w @ es \<Longrightarrow> events_between w w' = es"
  by (simp add: events_between_def)

lemma applied_append: "applied (es1 @ es2) = applied es1 @ applied es2"
  by (induction es1 rule: applied.induct) simp_all

lemma fetches_append: "fetches (es1 @ es2) = fetches es1 @ fetches es2"
  by (induction es1 rule: fetches.induct) simp_all

subsection \<open>The loop over the batch\<close>

lemma update_replicas_Cons:
  "update_replicas env hh (x # xs) w =
     (let w1 = emit env Live w in
      if graceful_stop w1 then (Inr (), w1)
      else let w2 = emit env (Update x) (emit env Time w1) in
        case update_ret env (trace w2) of
          Some e \<Rightarrow> (Inl e, w2)
        | None \<Rightarrow> (case getitem x ''id'' of
             Inl e \<Rightarrow> (Inl e, w2)
           | Inr i \<Rightarrow> update_replicas env hh xs (emit env (Log DEBUG (Update_took i)) w2)))"
  by (simp add: heartbeat_live_def update_collection_replica_def logger_def time_time_def Let_def
      split: option.splits sum.splits)

declare update_replicas.simps(2) [simp del]

lemma update_replicas_emits:
  "\<exists>es. snd (update_replicas env hh rs w) = emits env es w"
proof (induction rs arbitrary: w)
  case Nil
  have "snd (update_replicas env hh [] w) = emits env [] w" by (simp add: emits_Nil)
  then show ?case by blast
next
  case (Cons x xs)
  let ?w1 = "emit env Live w"
  let ?w2 = "emit env (Update x) (emit env Time ?w1)"
  show ?case
  proof (cases "graceful_stop ?w1")
    case True
    then have "snd (update_replicas env hh (x # xs) w) = emits env [Live] w"
      by (simp add: update_replicas_Cons emits_Cons emits_Nil)
    then show ?thesis by blast
  next
    case ns: False
    show ?thesis
    proof (cases "update_ret env (trace ?w2)")
      case (Some e)
      with ns have "snd (update_replicas env hh (x # xs) w) = emits env [Live, Time, Update x] w"
        by (simp add: update_replicas_Cons emits_Cons emits_Nil Let_def)
      then show ?thesis by blast
    next
      case None
      show ?thesis
      proof (cases "getitem x ''id''")
        case (Inl e)
        with ns None have "snd (update_replicas env hh (x # xs) w) = emits env [Live, Time, Update x] w"
          by (simp add: update_replicas_Cons emits_Cons emits_Nil Let_def)
        then show ?thesis by blast
      next
        case (Inr i)
        let ?w3 = "emit env (Log DEBUG (Update_took i)) ?w2"
        from Cons.IH[of ?w3] obtain es where es: "snd (update_replicas env hh xs ?w3) = emits env es ?w3"
          by blast
        with ns None Inr have "snd (update_replicas env hh (x # xs) w)
            = emits env (Live # Time # Update x # Log DEBUG (Update_took i) # es) w"
          by (simp add: update_replicas_Cons emits_Cons Let_def)
        then show ?thesis by blast
      qed
    qed
  qed
qed


lemma update_replicas_snd:
  "snd (update_replicas env hh rs w) =
     emits env (events_between w (snd (update_replicas env hh rs w))) w"
proof -
  obtain es where "snd (update_replicas env hh rs w) = emits env es w"
    using update_replicas_emits by blast
  then show ?thesis by (simp add: events_between_emits)
qed

lemma update_replicas_run:
  fixes Q :: "replica list \<Rightarrow> world \<Rightarrow> exn + unit \<Rightarrow> event list \<Rightarrow> bool"
  assumes empty: "\<And>w. Q [] w (Inr ()) []"
    and stopped: "\<And>x xs w. graceful_stop (emit env Live w) \<Longrightarrow> Q (x # xs) w (Inr ()) [Live]"
    and raised: "\<And>x xs w e. \<not> graceful_stop (emit env Live w) \<Longrightarrow>
        update_ret env (trace w @ [Live, Time, Update x]) = Some e \<Longrightarrow>
        Q (x # xs) w (Inl e) [Live, Time, Update x]"
    and no_id: "\<And>x xs w e. \<not> graceful_stop (emit env Live w) \<Longrightarrow>
        update_ret env (trace w @ [Live, Time, Update x]) = None \<Longrightarrow>
        getitem x ''id'' = Inl e \<Longrightarrow>
        Q (x # xs) w (Inl e) [Live, Time, Update x]"
    and logged: "\<And>x xs w i r es. \<not> graceful_stop (emit env Live w) \<Longrightarrow>
        update_ret env (trace w @ [Live, Time, Update x]) = None \<Longrightarrow>
        getitem x ''id'' = Inr i \<Longrightarrow>
        Q xs (emits env [Live, Time, Update x, Log DEBUG (Update_took i)] w) r es \<Longrightarrow>
        Q (x # xs) w r (Live # Time # Update x # Log DEBUG (Update_took i) # es)"
  shows "Q rs w (fst (update_replicas env hh rs w))
           (events_between w (snd (update_replicas env hh rs w)))"
proof (induction rs arbitrary: w)
  case Nil
  show ?case by (simp add: events_between_def empty)
next
  case (Cons x xs)
  let ?w1 = "emit env Live w"
  let ?w2 = "emit env (Update x) (emit env Time ?w1)"
  have t2: "trace ?w2 = trace w @ [Live, Time, Update x]" by (simp add: trace_emit)
  show ?case
  proof (cases "graceful_stop ?w1")
    case True
    then have "update_replicas env hh (x # xs) w = (Inr (), ?w1)"
      by (simp add: update_replicas_Cons)
    then show ?thesis using stopped[OF True] by (simp add: events_between_def trace_emit)
  next
    case ns: False
    show ?thesis
    proof (cases "update_ret env (trace ?w2)")
      case (Some e)
      with ns have "update_replicas env hh (x # xs) w = (Inl e, ?w2)"
        by (simp add: update_replicas_Cons Let_def)
      then show ?thesis using raised[OF ns, of x e] Some t2
        by (simp add: events_between_def trace_emit)
    next
      case None
      show ?thesis
      proof (cases "getitem x ''id''")
        case (Inl e)
        with ns None have "update_replicas env hh (x # xs) w = (Inl e, ?w2)"
          by (simp add: update_replicas_Cons Let_def)
        then show ?thesis using no_id[OF ns _ Inl] None t2
          by (simp add: events_between_def trace_emit)
      next
        case (Inr i)
        let ?w3 = "emit env (Log DEBUG (Update_took i)) ?w2"
        let ?es = "events_between ?w3 (snd (update_replicas env hh xs ?w3))"
        have w3: "?w3 = emits env [Live, Time, Update x, Log DEBUG (Update_took i)] w"
          by (simp add: emits_Cons emits_Nil)
        have eq: "update_replicas env hh (x # xs) w = update_replicas env hh xs ?w3"
          using ns None Inr by (simp add: update_replicas_Cons Let_def)
        have "trace (snd (update_replicas env hh xs ?w3)) = trace (emits env ?es ?w3)"
          by (rule arg_cong[where f = trace], rule update_replicas_snd)
        also have "\<dots> = trace w @ Live # Time # Update x # Log DEBUG (Update_took i) # ?es"
          by (simp add: trace_emits trace_emit)
        finally have ev: "events_between w (snd (update_replicas env hh xs ?w3))
            = Live # Time # Update x # Log DEBUG (Update_took i) # ?es"
          by (rule events_between_eq)
        have "Q xs ?w3 (fst (update_replicas env hh xs ?w3)) ?es" by (rule Cons.IH)
        then have "Q (x # xs) w (fst (update_replicas env hh xs ?w3))
            (Live # Time # Update x # Log DEBUG (Update_took i) # ?es)"
          using logged[OF ns _ Inr] None t2 w3 by simp
        then show ?thesis by (simp only: eq ev)
      qed
    qed
  qed
qed

lemma update_replicas_prefix:
  "\<exists>n. applied (events_between w (snd (update_replicas env hh rs w))) = take n rs"
proof (rule update_replicas_run[where Q = "\<lambda>rs w r es. \<exists>n. applied es = take n rs"])
  fix w :: world show "\<exists>n. applied [] = take n []" by simp
next
  fix x :: replica and xs :: "replica list"
  have "applied [Live] = take 0 (x # xs)" by simp
  then show "\<exists>n. applied [Live] = take n (x # xs)" by blast
next
  fix x :: replica and xs :: "replica list"
  have "applied [Live, Time, Update x] = take 1 (x # xs)" by simp
  then show "\<exists>n. applied [Live, Time, Update x] = take n (x # xs)" by blast
  then show "\<exists>n. applied [Live, Time, Update x] = take n (x # xs)" .
next
  fix x :: replica and xs :: "replica list" and i es
  assume "\<exists>n. applied es = take n xs"
  then obtain n where "applied es = take n xs" by blast
  then have "applied (Live # Time # Update x # Log DEBUG (Update_took i) # es) = take (Suc n) (x # xs)"
    by simp
  then show "\<exists>n. applied (Live # Time # Update x # Log DEBUG (Update_took i) # es) = take n (x # xs)"
    by blast
qed

lemma update_replicas_no_fetch:
  "fetches (events_between w (snd (update_replicas env hh rs w))) = []"
  by (rule update_replicas_run[where Q = "\<lambda>rs w r es. fetches es = []"]) simp_all

text \<open>
  The stop event is read once per replica, before the clock is read. A stop that is set
  at some point of the loop, other than by an interrupt during that read of the clock,
  leaves the rest of the loop without an update.
\<close>

lemma update_replicas_after_stop:
  "\<forall>es1 es2. events_between w (snd (update_replicas env hh rs w)) = es1 @ es2 \<longrightarrow>
     graceful_stop (emits env es1 w) \<longrightarrow>
     (es1 = [] \<or> last es1 \<noteq> Time \<or> graceful_stop (emits env (butlast es1) w)) \<longrightarrow>
     applied es2 = []"
proof (rule update_replicas_run[where Q = "\<lambda>rs w r es.
    \<forall>es1 es2. es = es1 @ es2 \<longrightarrow> graceful_stop (emits env es1 w) \<longrightarrow>
      (es1 = [] \<or> last es1 \<noteq> Time \<or> graceful_stop (emits env (butlast es1) w)) \<longrightarrow>
      applied es2 = []"])
  fix w :: world
  show "\<forall>es1 es2. [] = es1 @ es2 \<longrightarrow> graceful_stop (emits env es1 w) \<longrightarrow>
      (es1 = [] \<or> last es1 \<noteq> Time \<or> graceful_stop (emits env (butlast es1) w)) \<longrightarrow>
      applied es2 = []"
    by simp
next
  fix w :: world
  show "\<forall>es1 es2. [Live] = es1 @ es2 \<longrightarrow> graceful_stop (emits env es1 w) \<longrightarrow>
      (es1 = [] \<or> last es1 \<noteq> Time \<or> graceful_stop (emits env (butlast es1) w)) \<longrightarrow>
      applied es2 = []"
    by (auto simp add: Cons_eq_append_conv)
next
  fix w :: world and x :: replica
  assume ns: "\<not> graceful_stop (emit env Live w)"
  then have ns0: "\<not> graceful_stop w" using stop_emit by blast
  have short: "\<forall>es1 es2. [Live, Time, Update x] = es1 @ es2 \<longrightarrow>
      graceful_stop (emits env es1 w) \<longrightarrow>
      (es1 = [] \<or> last es1 \<noteq> Time \<or> graceful_stop (emits env (butlast es1) w)) \<longrightarrow>
      applied es2 = []"
  proof (intro allI impI)
    fix es1 es2
    assume split: "[Live, Time, Update x] = es1 @ es2"
      and st: "graceful_stop (emits env es1 w)"
      and before: "es1 = [] \<or> last es1 \<noteq> Time \<or> graceful_stop (emits env (butlast es1) w)"
    consider "es1 = []" | "es1 = [Live]" | "es1 = [Live, Time]"
      | "es1 = [Live, Time, Update x]" "es2 = []"
      using split by (auto simp add: Cons_eq_append_conv)
    then show "applied es2 = []"
    proof cases
      case 1 with st ns0 show ?thesis by (simp add: emits_Nil)
    next
      case 2 with st ns show ?thesis by (simp add: emits_Nil emits_Cons)
    next
      case 3 with before ns show ?thesis by (simp add: emits_Nil emits_Cons)
    next
      case 4 then show ?thesis by simp
    qed
  qed
  show "\<forall>es1 es2. [Live, Time, Update x] = es1 @ es2 \<longrightarrow>
      graceful_stop (emits env es1 w) \<longrightarrow>
      (es1 = [] \<or> last es1 \<noteq> Time \<or> graceful_stop (emits env (butlast es1) w)) \<longrightarrow>
      applied es2 = []"
    by (rule short)
  show "\<forall>es1 es2. [Live, Time, Update x] = es1 @ es2 \<longrightarrow>
      graceful_stop (emits env es1 w) \<longrightarrow>
      (es1 = [] \<or> last es1 \<noteq> Time \<or> graceful_stop (emits env (butlast es1) w)) \<longrightarrow>
      applied es2 = []"
    by (rule short)
next
  fix w :: world and x :: replica and i es
  let ?l = "Log DEBUG (Update_took i)"
  let ?w4 = "emits env [Live, Time, Update x, ?l] w"
  assume ns: "\<not> graceful_stop (emit env Live w)"
    and IH: "\<forall>es1 es2. es = es1 @ es2 \<longrightarrow> graceful_stop (emits env es1 ?w4) \<longrightarrow>
      (es1 = [] \<or> last es1 \<noteq> Time \<or> graceful_stop (emits env (butlast es1) ?w4)) \<longrightarrow>
      applied es2 = []"
  have ns0: "\<not> graceful_stop w" using ns stop_emit by blast
  have later: "graceful_stop ?w4 \<Longrightarrow> applied es = []"
  proof -
    assume "graceful_stop ?w4"
    then have "graceful_stop (emits env [] ?w4)" by (simp add: emits_Nil)
    with IH show "applied es = []" by blast
  qed
  show "\<forall>es1 es2. Live # Time # Update x # ?l # es = es1 @ es2 \<longrightarrow>
      graceful_stop (emits env es1 w) \<longrightarrow>
      (es1 = [] \<or> last es1 \<noteq> Time \<or> graceful_stop (emits env (butlast es1) w)) \<longrightarrow>
      applied es2 = []"
  proof (intro allI impI)
    fix es1 es2
    assume split: "Live # Time # Update x # ?l # es = es1 @ es2"
      and st: "graceful_stop (emits env es1 w)"
      and before: "es1 = [] \<or> last es1 \<noteq> Time \<or> graceful_stop (emits env (butlast es1) w)"
    consider "es1 = []" | "es1 = [Live]" | "es1 = [Live, Time]"
      | "es1 = [Live, Time, Update x]" "es2 = ?l # es"
      | "es1 = [Live, Time, Update x, ?l]" "es2 = es"
      | e es1' where "es1 = Live # Time # Update x # ?l # es1' @ [e]" "es = (es1' @ [e]) @ es2"
    proof -
      from split consider "es1 = []" | "es1 = [Live]" | "es1 = [Live, Time]"
        | "es1 = [Live, Time, Update x]" "es2 = ?l # es"
        | es1'' where "es1 = Live # Time # Update x # ?l # es1''" "es = es1'' @ es2"
        by (auto simp add: Cons_eq_append_conv)
      then show ?thesis
      proof cases
        case (5 es1'')
        show ?thesis
        proof (cases es1'' rule: rev_cases)
          case Nil with 5 that(5) show ?thesis by simp
        next
          case (snoc es1' e) with 5 that(6) show ?thesis by simp
        qed
      qed (use that in blast)+
    qed
    then show "applied es2 = []"
    proof cases
      case 1 with st ns0 show ?thesis by (simp add: emits_Nil)
    next
      case 2 with st ns show ?thesis by (simp add: emits_Nil emits_Cons)
    next
      case 3 with before ns show ?thesis by (simp add: emits_Nil emits_Cons)
    next
      case 4
      with st have "graceful_stop ?w4" by (simp add: emits_Nil emits_Cons stop_emit)
      then have "applied es = []" by (rule later)
      with 4 show ?thesis by simp
    next
      case 5
      with st have "graceful_stop ?w4" by simp
      then have "applied es = []" by (rule later)
      with 5 show ?thesis by simp
    next
      case (6 e es1')
      have a: "emits env es1 w = emits env (es1' @ [e]) ?w4"
        by (simp add: 6(1) emits_Cons emits_Nil)
      have b: "emits env (butlast es1) w = emits env (butlast (es1' @ [e])) ?w4"
        by (simp add: 6(1) emits_Cons emits_Nil butlast_append)
      have c: "last es1 = last (es1' @ [e])" by (simp add: 6(1))
      from st a have "graceful_stop (emits env (es1' @ [e]) ?w4)" by simp
      moreover from before b c have "es1' @ [e] = [] \<or> last (es1' @ [e]) \<noteq> Time \<or>
          graceful_stop (emits env (butlast (es1' @ [e])) ?w4)"
        by (simp add: 6(1))
      ultimately show ?thesis using IH 6(2) by blast
    qed
  qed
qed

lemma update_replicas_raise:
  "\<forall>es1 x es2 e. events_between w (snd (update_replicas env hh rs w)) = es1 @ Update x # es2 \<longrightarrow>
     update_ret env (trace w @ es1 @ [Update x]) = Some e \<longrightarrow>
     es2 = [] \<and> fst (update_replicas env hh rs w) = Inl e"
proof (rule update_replicas_run[where Q = "\<lambda>rs w r es.
    \<forall>es1 x es2 e. es = es1 @ Update x # es2 \<longrightarrow>
      update_ret env (trace w @ es1 @ [Update x]) = Some e \<longrightarrow> es2 = [] \<and> r = Inl e"])
  fix w :: world
  show "\<forall>es1 x es2 e. [] = es1 @ Update x # es2 \<longrightarrow>
      update_ret env (trace w @ es1 @ [Update x]) = Some e \<longrightarrow> es2 = [] \<and> Inr () = Inl e"
    by simp
next
  fix w :: world
  show "\<forall>es1 x es2 e. [Live] = es1 @ Update x # es2 \<longrightarrow>
      update_ret env (trace w @ es1 @ [Update x]) = Some e \<longrightarrow> es2 = [] \<and> Inr () = Inl e"
    by (simp add: Cons_eq_append_conv)
next
  fix w :: world and x :: replica and e
  assume "update_ret env (trace w @ [Live, Time, Update x]) = Some e"
  then show "\<forall>es1 xa es2 ea. [Live, Time, Update x] = es1 @ Update xa # es2 \<longrightarrow>
      update_ret env (trace w @ es1 @ [Update xa]) = Some ea \<longrightarrow> es2 = [] \<and> Inl e = Inl ea"
    by (auto simp add: Cons_eq_append_conv)
next
  fix w :: world and x :: replica and e
  assume "update_ret env (trace w @ [Live, Time, Update x]) = None"
  then show "\<forall>es1 xa es2 ea. [Live, Time, Update x] = es1 @ Update xa # es2 \<longrightarrow>
      update_ret env (trace w @ es1 @ [Update xa]) = Some ea \<longrightarrow> es2 = [] \<and> Inl e = Inl ea"
    by (auto simp add: Cons_eq_append_conv)
next
  fix w :: world and x :: replica and i r es
  let ?l = "Log DEBUG (Update_took i)"
  assume ok: "update_ret env (trace w @ [Live, Time, Update x]) = None"
    and IH: "\<forall>es1 xa es2 e. es = es1 @ Update xa # es2 \<longrightarrow>
      update_ret env (trace (emits env [Live, Time, Update x, ?l] w) @ es1 @ [Update xa]) = Some e \<longrightarrow>
      es2 = [] \<and> r = Inl e"
  show "\<forall>es1 xa es2 e. Live # Time # Update x # ?l # es = es1 @ Update xa # es2 \<longrightarrow>
      update_ret env (trace w @ es1 @ [Update xa]) = Some e \<longrightarrow> es2 = [] \<and> r = Inl e"
  proof (intro allI impI)
    fix es1 xa es2 e
    assume split: "Live # Time # Update x # ?l # es = es1 @ Update xa # es2"
      and raised: "update_ret env (trace w @ es1 @ [Update xa]) = Some e"
    consider "es1 = [Live, Time]" "xa = x"
      | es1' where "es1 = Live # Time # Update x # ?l # es1'" "es = es1' @ Update xa # es2"
      using split by (auto simp add: Cons_eq_append_conv)
    then show "es2 = [] \<and> r = Inl e"
    proof cases
      case 1 with raised ok show ?thesis by simp
    next
      case 2
      with raised have "update_ret env
          (trace (emits env [Live, Time, Update x, ?l] w) @ es1' @ [Update xa]) = Some e"
        by (simp add: trace_emits)
      with IH 2 show ?thesis by blast
    qed
  qed
qed

subsection \<open>The cycle\<close>

lemma fetched_eq:
  "fetched env hh limit w =
     fetch_ret env (trace w @ [Live,
       Fetch (snd (live hh (trace w @ [Live])) - 1) (fst (live hh (trace w @ [Live]))) limit])"
  by (simp add: fetched_def heartbeat_live_def get_cleaned_updated_collection_replicas_def
      Let_def trace_emit case_prod_beta)

lemma heartbeat_live_fst: "fst (heartbeat_live env hh w) = live hh (trace w @ [Live])"
  by (simp add: heartbeat_live_def Let_def trace_emit)

lemma run_once_failed:
  assumes "fetched env hh limit w = Inl e"
  shows "run_once env hh limit w = (Inl e, emits env (cycle_head hh limit w) w)"
  using assms
  by (simp add: fetched_eq run_once_def heartbeat_live_def cycle_head_def
      get_cleaned_updated_collection_replicas_def Let_def trace_emit emits_Cons emits_Nil
      case_prod_beta)

lemma run_once_empty:
  assumes "fetched env hh limit w = Inr []"
  shows "run_once env hh limit w =
     (Inr True, emits env (cycle_head hh limit w @
        [Log DEBUG (Index_query_time 0), Log INFO Did_not_get_any_work]) w)"
  using assms
  by (simp add: fetched_eq run_once_def heartbeat_live_def cycle_head_def logger_def
      get_cleaned_updated_collection_replicas_def Let_def trace_emit emits_Cons emits_Nil
      case_prod_beta)

lemma run_once_batch:
  assumes "fetched env hh limit w = Inr rs" and "rs \<noteq> []"
  shows "run_once env hh limit w =
     (case update_replicas env hh rs
         (emits env (cycle_head hh limit w @ [Log DEBUG (Index_query_time (length rs))]) w) of
        (Inl e, w4) \<Rightarrow> (Inl e, w4)
      | (Inr _, w4) \<Rightarrow> (Inr (limit \<noteq> 0 \<and> int (length rs) < limit), w4))"
  using assms
  by (simp add: fetched_eq run_once_def heartbeat_live_def cycle_head_def logger_def
      get_cleaned_updated_collection_replicas_def Let_def trace_emit emits_Cons emits_Nil
      case_prod_beta)

lemma run_once_batch_fst:
  assumes "fetched env hh limit w = Inr rs" and "rs \<noteq> []"
  shows "fst (run_once env hh limit w) =
     (case fst (update_replicas env hh rs
         (emits env (cycle_head hh limit w @ [Log DEBUG (Index_query_time (length rs))]) w)) of
        Inl e \<Rightarrow> Inl e
      | Inr _ \<Rightarrow> Inr (limit \<noteq> 0 \<and> int (length rs) < limit))"
  by (simp add: run_once_batch[OF assms] split: prod.splits sum.splits)

lemma run_once_batch_snd:
  assumes "fetched env hh limit w = Inr rs" and "rs \<noteq> []"
  shows "snd (run_once env hh limit w) =
     snd (update_replicas env hh rs
         (emits env (cycle_head hh limit w @ [Log DEBUG (Index_query_time (length rs))]) w))"
  by (simp add: run_once_batch[OF assms] split: prod.splits sum.splits)

lemma run_once_batch_events:
  assumes "fetched env hh limit w = Inr rs" and "rs \<noteq> []"
  defines "w3 \<equiv> emits env (cycle_head hh limit w @ [Log DEBUG (Index_query_time (length rs))]) w"
  shows "events_between w (snd (run_once env hh limit w)) =
     cycle_head hh limit w @ Log DEBUG (Index_query_time (length rs)) #
       events_between w3 (snd (update_replicas env hh rs w3))"
proof -
  let ?es = "events_between w3 (snd (update_replicas env hh rs w3))"
  have "trace (snd (update_replicas env hh rs w3)) = trace (emits env ?es w3)"
    by (rule arg_cong[where f = trace], rule update_replicas_snd)
  also have "\<dots> = trace w @ cycle_head hh limit w @ Log DEBUG (Index_query_time (length rs)) # ?es"
    by (simp add: trace_emits w3_def)
  finally have "events_between w (snd (update_replicas env hh rs w3)) =
      cycle_head hh limit w @ Log DEBUG (Index_query_time (length rs)) # ?es"
    by (rule events_between_eq)
  then show ?thesis by (simp only: run_once_batch_snd[OF assms(1,2)] w3_def)
qed

lemma run_once_snd:
  "snd (run_once env hh limit w) = emits env (events_between w (snd (run_once env hh limit w))) w"
proof (cases "fetched env hh limit w")
  case (Inl e)
  from run_once_failed[OF Inl] show ?thesis by (simp add: events_between_emits)
next
  case (Inr rs)
  show ?thesis
  proof (cases "rs = []")
    case True
    with Inr have "fetched env hh limit w = Inr []" by simp
    from run_once_empty[OF this] show ?thesis by (simp add: events_between_emits)
  next
    case False
    let ?h = "cycle_head hh limit w @ [Log DEBUG (Index_query_time (length rs))]"
    let ?w3 = "emits env ?h w"
    let ?es = "events_between ?w3 (snd (update_replicas env hh rs ?w3))"
    have "snd (run_once env hh limit w) = snd (update_replicas env hh rs ?w3)"
      by (rule run_once_batch_snd[OF Inr False])
    also have "\<dots> = emits env ?es ?w3" by (rule update_replicas_snd)
    also have "\<dots> = emits env (?h @ ?es) w" by (simp only: emits_append)
    also have "?h @ ?es = events_between w (snd (run_once env hh limit w))"
      by (simp add: run_once_batch_events[OF Inr False])
    finally show ?thesis .
  qed
qed

lemma take_length_take: "take (length (take n xs)) xs = take n xs"
  by (simp add: min_def)

lemma split_after_head:
  assumes "h @ es = es1 @ es2"
  shows "(\<exists>m. h = es1 @ m \<and> es2 = m @ es) \<or> (\<exists>es1'. es1 = h @ es1' \<and> es = es1' @ es2)"
  using assms by (auto simp add: append_eq_append_conv2)

lemma update_replicas_after_stop_rule:
  assumes "events_between w (snd (update_replicas env hh rs w)) = es1 @ es2"
    and "graceful_stop (emits env es1 w)"
    and "es1 = [] \<or> last es1 \<noteq> Time \<or> graceful_stop (emits env (butlast es1) w)"
  shows "applied es2 = []"
  by (rule update_replicas_after_stop[rule_format, OF assms])

lemma run_once_after_stop:
  assumes split: "events_between w (snd (run_once env hh limit w)) = es1 @ es2"
    and st: "graceful_stop (emits env es1 w)"
    and before: "es1 = [] \<or> last es1 \<noteq> Time \<or> graceful_stop (emits env (butlast es1) w)"
  shows "applied es2 = []"
proof (cases "fetched env hh limit w")
  case (Inl e)
  from run_once_failed[OF Inl] split have "cycle_head hh limit w = es1 @ es2"
    by (simp add: events_between_emits)
  from this[symmetric] have "applied (es1 @ es2) = []" by (simp add: cycle_head_def)
  then show ?thesis by (simp add: applied_append)
next
  case (Inr rs)
  show ?thesis
  proof (cases "rs = []")
    case True
    with Inr have "fetched env hh limit w = Inr []" by simp
    from run_once_empty[OF this] split
    have "cycle_head hh limit w @ [Log DEBUG (Index_query_time 0), Log INFO Did_not_get_any_work]
        = es1 @ es2"
      by (simp add: events_between_emits)
    from this[symmetric] have "applied (es1 @ es2) = []" by (simp add: cycle_head_def)
    then show ?thesis by (simp add: applied_append)
  next
    case False
    let ?h = "cycle_head hh limit w @ [Log DEBUG (Index_query_time (length rs))]"
    let ?w3 = "emits env ?h w"
    let ?es = "events_between ?w3 (snd (update_replicas env hh rs ?w3))"
    have ah: "applied ?h = []" by (simp add: cycle_head_def)
    have "?h @ ?es = es1 @ es2"
      using split by (simp add: run_once_batch_events[OF Inr False])
    then consider m where "?h = es1 @ m" "es2 = m @ ?es"
      | es1' where "es1 = ?h @ es1'" "?es = es1' @ es2"
      using split_after_head by blast
    then show ?thesis
    proof cases
      case 1
      from 1(1) have "?w3 = emits env m (emits env es1 w)"
        by (simp only: emits_append[symmetric])
      with st have g: "graceful_stop (emits env [] ?w3)" by (simp add: emits_Nil stop_emits)
      have e: "?es = [] @ ?es" by simp
      have "applied ?es = []"
        by (rule update_replicas_after_stop_rule[OF e g]) simp
      moreover from 1(1) ah have "applied m = []"
        by (simp only: applied_append) simp
      ultimately show ?thesis using 1(2) by (simp add: applied_append)
    next
      case 2
      from 2(1) st have st': "graceful_stop (emits env es1' ?w3)" by (simp only: emits_append)
      have "es1' = [] \<or> last es1' \<noteq> Time \<or> graceful_stop (emits env (butlast es1') ?w3)"
      proof (cases "es1' = []")
        case True then show ?thesis by simp
      next
        case ne: False
        then have l: "last es1 = last es1'" using 2(1) by simp
        from ne have "butlast es1 = ?h @ butlast es1'" using 2(1) by (simp add: butlast_append)
        then have b: "emits env (butlast es1) w = emits env (butlast es1') ?w3"
          by (simp only: emits_append)
        from before ne 2(1) l b show ?thesis by auto
      qed
      with 2(2) st' show ?thesis by (rule update_replicas_after_stop_rule)
    qed
  qed
qed

lemma run_once_prefix:
  assumes "fetched env hh limit w = Inr rs"
  shows "\<exists>n. applied (events_between w (snd (run_once env hh limit w))) = take n rs"
proof (cases "rs = []")
  case True
  with assms have "fetched env hh limit w = Inr []" by simp
  from run_once_empty[OF this] True show ?thesis
    by (simp add: events_between_emits applied_append cycle_head_def)
next
  case False
  let ?w3 = "emits env (cycle_head hh limit w @ [Log DEBUG (Index_query_time (length rs))]) w"
  from update_replicas_prefix[of ?w3 env hh rs] show ?thesis
    by (simp add: run_once_batch_events[OF assms False] applied_append cycle_head_def)
qed

lemma update_after_head:
  assumes "[Live, f, l] @ es = es1 @ Update x # es2" and "f \<noteq> Update x" and "l \<noteq> Update x"
  shows "\<exists>es1'. es1 = [Live, f, l] @ es1' \<and> es = es1' @ Update x # es2"
  using assms by (auto simp add: Cons_eq_append_conv)

lemma applied_tl_le:
  assumes "applied (tl es) = []"
  shows "length (applied es) \<le> 1"
proof (cases es)
  case Nil then show ?thesis by simp
next
  case (Cons e es')
  with assms show ?thesis by (cases e) simp_all
qed

lemma stop_after_third:
  "applied (events_between world0 (snd (run_once (stop_after 3 ten_items) (fixed_handler 0 4) 10 world0)))
     = take 3 ten_items"
  by code_simp

section \<open>The polling cycle: what it returns and what it asks for\<close>

text \<open>
  Claim C1 as the spec has it makes \<open>must_sleep\<close> false for every \<open>limit \<le> 0\<close>, the
  empty batch included. The empty batch returns before the limit is looked at: with
  \<open>limit = 0\<close> and no replica, \<open>run_once\<close> returns true.
\<close>

theorem run_once_limit_zero_empty_counterexample:
  "fetched (quiet_env []) (fixed_handler 0 1) 0 world0 = Inr [] \<and>
   fst (run_once (quiet_env []) (fixed_handler 0 1) 0 world0) = Inr True"
  by code_simp

text \<open>
  Claim C1, amended: when \<open>run_once\<close> returns, the work source has answered with a batch,
  and \<open>must_sleep\<close> is \<open>k < limit\<close> for \<open>limit > 0\<close> and batch size \<open>k\<close>; for
  \<open>limit \<le> 0\<close> it is true for the empty batch and false for every other batch.
\<close>

theorem run_once_must_sleep:
  assumes "fst (run_once env hh limit w) = Inr must_sleep"
  shows "\<exists>replicas. fetched env hh limit w = Inr replicas \<and>
     must_sleep = (if 0 < limit then int (length replicas) < limit else replicas = [])"
proof (cases "fetched env hh limit w")
  case (Inl e)
  from run_once_failed[OF Inl] assms show ?thesis by simp
next
  case (Inr rs)
  show ?thesis
  proof (cases "rs = []")
    case True
    with Inr have "fetched env hh limit w = Inr []" by simp
    from run_once_empty[OF this] assms have "must_sleep" by simp
    with Inr True show ?thesis by simp
  next
    case False
    from run_once_batch_fst[OF Inr False] assms
    have "must_sleep = (limit \<noteq> 0 \<and> int (length rs) < limit)"
      by (simp split: sum.splits)
    moreover have "(limit \<noteq> 0 \<and> int (length rs) < limit)
        = (if 0 < limit then int (length rs) < limit else rs = [])"
      using False by auto
    ultimately show ?thesis using Inr by simp
  qed
qed

theorem run_once_must_sleep_witness:
  "fst (run_once (quiet_env (take 2 ten_items)) (fixed_handler 0 1) 5 world0) = Inr True \<and>
   (\<exists>replicas. fetched (quiet_env (take 2 ten_items)) (fixed_handler 0 1) 5 world0 = Inr replicas \<and>
      True = (if (0::int) < 5 then int (length replicas) < 5 else replicas = []))"
proof -
  have a: "fst (run_once (quiet_env (take 2 ten_items)) (fixed_handler 0 1) 5 world0) = Inr True"
    by code_simp
  from a run_once_must_sleep[OF a] show ?thesis by blast
qed

text \<open>
  Claim C2 as the spec has it sends the \<open>total_workers\<close> of the liveness refresh to the
  work source. A lone worker, for which \<open>live\<close> returns \<open>(0, 1)\<close>, asks with
  \<open>total_workers = 0\<close>.
\<close>

theorem run_once_fetch_total_workers_counterexample:
  "fst (heartbeat_live (quiet_env []) (fixed_handler 0 1) world0) = (0, 1) \<and>
   fetches (events_between world0 (snd (run_once (quiet_env []) (fixed_handler 0 1) 1000 world0)))
     = [(0, 0, 1000)]"
  by code_simp

text \<open>
  Claim C2, amended: a cycle starts with the liveness refresh and asks the work source once,
  right after it, with \<open>total_workers - 1\<close>, with the \<open>worker_number\<close> that this
  refresh returned and with the configured limit.
\<close>

theorem run_once_fetch_arguments:
  assumes "fst (heartbeat_live env hh w) = (worker_number, total_workers)"
  shows "take 2 (events_between w (snd (run_once env hh limit w)))
       = [Live, Fetch (total_workers - 1) worker_number limit]
     \<and> fetches (events_between w (snd (run_once env hh limit w)))
       = [(total_workers - 1, worker_number, limit)]"
proof -
  have head: "cycle_head hh limit w = [Live, Fetch (total_workers - 1) worker_number limit]"
    using assms by (simp add: cycle_head_def heartbeat_live_fst)
  show ?thesis
  proof (cases "fetched env hh limit w")
    case (Inl e)
    from run_once_failed[OF Inl] show ?thesis by (simp add: events_between_emits head)
  next
    case (Inr rs)
    show ?thesis
    proof (cases "rs = []")
      case True
      with Inr have "fetched env hh limit w = Inr []" by simp
      from run_once_empty[OF this] show ?thesis by (simp add: events_between_emits head)
    next
      case False
      show ?thesis
        by (simp add: run_once_batch_events[OF Inr False] head update_replicas_no_fetch)
    qed
  qed
qed

theorem run_once_fetch_arguments_witness:
  "fst (heartbeat_live (quiet_env ten_items) (fixed_handler 2 4) world0) = (2, 4) \<and>
   take 2 (events_between world0 (snd (run_once (quiet_env ten_items) (fixed_handler 2 4) 10 world0)))
       = [Live, Fetch 3 2 10]
     \<and> fetches (events_between world0 (snd (run_once (quiet_env ten_items) (fixed_handler 2 4) 10 world0)))
       = [(3, 2, 10)]"
proof -
  have a: "fst (heartbeat_live (quiet_env ten_items) (fixed_handler 2 4) world0) = (2, 4)"
    by (simp add: heartbeat_live_def fixed_handler_def Let_def)
  from a run_once_fetch_arguments[OF a, of 10] show ?thesis by simp
qed

text \<open>
  Claim C4: when the work source returns no replica, the cycle logs the batch size at debug
  level and \<open>did not get any work\<close> at informational level, hands nothing to the work
  applier and returns \<open>must_sleep = True\<close>, whatever the limit is.
\<close>

theorem run_once_no_work:
  assumes "fst (heartbeat_live env hh w) = (worker_number, total_workers)"
    and "fetched env hh limit w = Inr []"
  shows "run_once env hh limit w =
     (Inr True,
      emits env [Live, Fetch (total_workers - 1) worker_number limit,
        Log DEBUG (Index_query_time 0), Log INFO Did_not_get_any_work] w)"
  using assms(1) run_once_empty[OF assms(2)]
  by (simp add: cycle_head_def heartbeat_live_fst)

theorem run_once_no_work_witness:
  "fst (heartbeat_live (quiet_env []) (fixed_handler 2 4) world0) = (2, 4) \<and>
   fetched (quiet_env []) (fixed_handler 2 4) 1000 world0 = Inr [] \<and>
   run_once (quiet_env []) (fixed_handler 2 4) 1000 world0 =
     (Inr True,
      emits (quiet_env []) [Live, Fetch 3 2 1000,
        Log DEBUG (Index_query_time 0), Log INFO Did_not_get_any_work] world0)"
proof -
  have a: "fst (heartbeat_live (quiet_env []) (fixed_handler 2 4) world0) = (2, 4)"
    by (simp add: heartbeat_live_def fixed_handler_def Let_def)
  have b: "fetched (quiet_env []) (fixed_handler 2 4) 1000 world0 = Inr []"
    by (simp add: fetched_eq quiet_env_def)
  from a b run_once_no_work[OF a b] show ?thesis by simp
qed

section \<open>The polling cycle: stopping and failing\<close>

text \<open>
  Claim C3 as the spec has it lets no replica reach the work applier once the stop event
  is set. The event is read once per replica, before the clock is read and the work
  applier is called. With ten replicas and the interrupt arriving during the fourth read of
  the clock, the stop event is clear when it is read for the fourth replica and set before
  the work applier is called on it: the event is set after the third replica, and four
  replicas are updated.
\<close>

theorem run_once_stop_after_check_counterexample:
  "events_between world0 (snd (run_once (stop_at_clock 4 ten_items) (fixed_handler 0 4) 10 world0))
     = [Live, Fetch 3 0 10, Log DEBUG (Index_query_time 10),
        Live, Time, Update (item ''a''), Log DEBUG (Update_took ''a''),
        Live, Time, Update (item ''b''), Log DEBUG (Update_took ''b''),
        Live, Time, Update (item ''c''), Log DEBUG (Update_took ''c''),
        Live, Time] @ [Update (item ''d''), Log DEBUG (Update_took ''d''), Live] \<and>
   \<not> graceful_stop (emits (stop_at_clock 4 ten_items)
       [Live, Fetch 3 0 10, Log DEBUG (Index_query_time 10),
        Live, Time, Update (item ''a''), Log DEBUG (Update_took ''a''),
        Live, Time, Update (item ''b''), Log DEBUG (Update_took ''b''),
        Live, Time, Update (item ''c''), Log DEBUG (Update_took ''c''),
        Live] world0) \<and>
   graceful_stop (emits (stop_at_clock 4 ten_items)
       [Live, Fetch 3 0 10, Log DEBUG (Index_query_time 10),
        Live, Time, Update (item ''a''), Log DEBUG (Update_took ''a''),
        Live, Time, Update (item ''b''), Log DEBUG (Update_took ''b''),
        Live, Time, Update (item ''c''), Log DEBUG (Update_took ''c''),
        Live, Time] world0) \<and>
   applied (events_between world0
       (snd (run_once (stop_at_clock 4 ten_items) (fixed_handler 0 4) 10 world0)))
     = [item ''a'', item ''b'', item ''c'', item ''d'']"
  by code_simp

text \<open>
  Claim C3, amended: every change of the world in a cycle is one of its calls, so that the
  stop event after a first part \<open>es1\<close> of the calls is the one of \<open>emits env es1 w\<close>.
  The replicas handed to the work applier are a prefix of the batch, each handed over once
  and in the order of the batch, and the cycle has no call that undoes an update. Once the
  stop event is set, at most one more replica is handed over, and only as the very next
  call: the replica for which the stop event had been read before. When the stop event
  is set by anything but an interrupt during that read of the clock, no later replica is
  handed over, and the replicas updated in the cycle are those updated up to then. With ten
  replicas and the interrupt arriving while the third is updated, the first three
  replicas are updated and no other.
\<close>

theorem run_once_cooperative_stop:
  assumes "fetched env hh limit w = Inr replicas"
  shows "snd (run_once env hh limit w)
       = emits env (events_between w (snd (run_once env hh limit w))) w
     \<and> (\<exists>n. applied (events_between w (snd (run_once env hh limit w))) = take n replicas)
     \<and> (\<forall>es1 es2. events_between w (snd (run_once env hh limit w)) = es1 @ es2 \<longrightarrow>
           graceful_stop (emits env es1 w) \<longrightarrow>
           applied (tl es2) = [] \<and> length (applied es2) \<le> 1 \<and>
           ((es1 = [] \<or> last es1 \<noteq> Time \<or> graceful_stop (emits env (butlast es1) w)) \<longrightarrow>
              applied es2 = [] \<and>
              applied (events_between w (snd (run_once env hh limit w)))
                = take (length (applied es1)) replicas))
     \<and> applied (events_between world0
           (snd (run_once (stop_after 3 ten_items) (fixed_handler 0 4) 10 world0)))
         = take 3 ten_items"
proof -
  let ?es = "events_between w (snd (run_once env hh limit w))"
  have later: "applied (tl es2) = []"
    if split: "?es = es1 @ es2" and st: "graceful_stop (emits env es1 w)" for es1 es2
  proof (cases es2)
    case Nil then show ?thesis by simp
  next
    case (Cons e es2')
    with split have s': "?es = (es1 @ [e]) @ es2'" by simp
    from st have st': "graceful_stop (emits env (es1 @ [e]) w)"
      by (simp add: emits_append stop_emits)
    from st have "es1 @ [e] = [] \<or> last (es1 @ [e]) \<noteq> Time \<or>
        graceful_stop (emits env (butlast (es1 @ [e])) w)" by simp
    with s' st' have "applied es2' = []" by (rule run_once_after_stop)
    with Cons show ?thesis by simp
  qed
  have none: "applied es2 = [] \<and> applied ?es = take (length (applied es1)) replicas"
    if split: "?es = es1 @ es2" and st: "graceful_stop (emits env es1 w)"
      and before: "es1 = [] \<or> last es1 \<noteq> Time \<or> graceful_stop (emits env (butlast es1) w)"
    for es1 es2
  proof -
    from split st before have none: "applied es2 = []" by (rule run_once_after_stop)
    obtain n where n: "applied ?es = take n replicas"
      using run_once_prefix[OF assms] by blast
    from n have "applied (es1 @ es2) = take n replicas" by (simp only: split)
    with none have "applied es1 = take n replicas" by (simp add: applied_append)
    then have "take (length (applied es1)) replicas = take n replicas"
      by (simp only: take_length_take)
    with n none show ?thesis by simp
  qed
  have "snd (run_once env hh limit w) = emits env ?es w" by (rule run_once_snd)
  moreover have "\<exists>n. applied ?es = take n replicas" by (rule run_once_prefix[OF assms])
  moreover have "\<forall>es1 es2. ?es = es1 @ es2 \<longrightarrow> graceful_stop (emits env es1 w) \<longrightarrow>
      applied (tl es2) = [] \<and> length (applied es2) \<le> 1 \<and>
      ((es1 = [] \<or> last es1 \<noteq> Time \<or> graceful_stop (emits env (butlast es1) w)) \<longrightarrow>
         applied es2 = [] \<and> applied ?es = take (length (applied es1)) replicas)"
  proof (intro allI impI conjI)
    fix es1 es2
    assume split: "?es = es1 @ es2" and st: "graceful_stop (emits env es1 w)"
    show t: "applied (tl es2) = []" by (rule later[OF split st])
    show "length (applied es2) \<le> 1" by (rule applied_tl_le[OF t])
    assume before: "es1 = [] \<or> last es1 \<noteq> Time \<or> graceful_stop (emits env (butlast es1) w)"
    from none[OF split st before] show "applied es2 = []" by simp
    from none[OF split st before] show "applied ?es = take (length (applied es1)) replicas"
      by simp
  qed
  moreover have "applied (events_between world0
        (snd (run_once (stop_after 3 ten_items) (fixed_handler 0 4) 10 world0)))
      = take 3 ten_items"
    by (rule stop_after_third)
  ultimately show ?thesis by (intro conjI)
qed

theorem run_once_cooperative_stop_witness:
  "fetched (stop_after 3 ten_items) (fixed_handler 0 4) 10 world0 = Inr ten_items \<and>
   events_between world0 (snd (run_once (stop_after 3 ten_items) (fixed_handler 0 4) 10 world0))
     = [Live, Fetch 3 0 10, Log DEBUG (Index_query_time 10),
        Live, Time, Update (item ''a''), Log DEBUG (Update_took ''a''),
        Live, Time, Update (item ''b''), Log DEBUG (Update_took ''b''),
        Live, Time, Update (item ''c'')] @ [Log DEBUG (Update_took ''c''), Live] \<and>
   \<not> graceful_stop (emits (stop_after 3 ten_items)
       [Live, Fetch 3 0 10, Log DEBUG (Index_query_time 10),
        Live, Time, Update (item ''a''), Log DEBUG (Update_took ''a''),
        Live, Time, Update (item ''b''), Log DEBUG (Update_took ''b''),
        Live, Time] world0) \<and>
   graceful_stop (emits (stop_after 3 ten_items)
       [Live, Fetch 3 0 10, Log DEBUG (Index_query_time 10),
        Live, Time, Update (item ''a''), Log DEBUG (Update_took ''a''),
        Live, Time, Update (item ''b''), Log DEBUG (Update_took ''b''),
        Live, Time, Update (item ''c'')] world0) \<and>
   applied [Log DEBUG (Update_took ''c''), Live] = [] \<and>
   applied (events_between world0
       (snd (run_once (stop_after 3 ten_items) (fixed_handler 0 4) 10 world0)))
     = [item ''a'', item ''b'', item ''c'']"
proof -
  let ?env = "stop_after 3 ten_items"
  let ?es1 = "[Live, Fetch 3 0 10, Log DEBUG (Index_query_time 10),
        Live, Time, Update (item ''a''), Log DEBUG (Update_took ''a''),
        Live, Time, Update (item ''b''), Log DEBUG (Update_took ''b''),
        Live, Time, Update (item ''c'')]"
  let ?es2 = "[Log DEBUG (Update_took ''c''), Live]"
  have a: "fetched ?env (fixed_handler 0 4) 10 world0 = Inr ten_items"
    by code_simp
  have b: "events_between world0 (snd (run_once ?env (fixed_handler 0 4) 10 world0))
      = ?es1 @ ?es2"
    by code_simp
  have c: "graceful_stop (emits ?env ?es1 world0)"
    by code_simp
  have d: "\<not> graceful_stop (emits ?env (butlast ?es1) world0)"
    by code_simp
  have e: "length (applied ?es1) = 3" by code_simp
  have f: "take 3 ten_items = [item ''a'', item ''b'', item ''c'']" by code_simp
  have g: "?es1 = [] \<or> last ?es1 \<noteq> Time \<or> graceful_stop (emits ?env (butlast ?es1) world0)"
    by simp
  from run_once_cooperative_stop[OF a] b c g
  have "applied ?es2 = [] \<and>
     applied (events_between world0 (snd (run_once ?env (fixed_handler 0 4) 10 world0)))
       = take (length (applied ?es1)) ten_items"
    by blast
  with a b c d e f show ?thesis by simp
qed

text \<open>
  Claim C6: an error of the work source ends the cycle right after the query and is the
  outcome of \<open>run_once\<close>; an error of the work applier is the outcome of \<open>run_once\<close>
  as well, and the failed update is the last call of the cycle: nothing is tried again
  and no later replica is touched.
\<close>

theorem run_once_propagates:
  "(\<forall>e. fetched env hh limit w = Inl e \<longrightarrow>
      fst (run_once env hh limit w) = Inl e \<and>
      events_between w (snd (run_once env hh limit w)) = cycle_head hh limit w)
   \<and> (\<forall>es1 x es2 e.
        events_between w (snd (run_once env hh limit w)) = es1 @ Update x # es2 \<longrightarrow>
        update_ret env (trace w @ es1 @ [Update x]) = Some e \<longrightarrow>
        es2 = [] \<and> fst (run_once env hh limit w) = Inl e)"
proof (intro conjI allI impI)
  fix e assume f: "fetched env hh limit w = Inl e"
  from run_once_failed[OF f] show "fst (run_once env hh limit w) = Inl e" by simp
  from run_once_failed[OF f]
  show "events_between w (snd (run_once env hh limit w)) = cycle_head hh limit w"
    by (simp add: events_between_emits)
next
  fix es1 x es2 e
  assume split: "events_between w (snd (run_once env hh limit w)) = es1 @ Update x # es2"
    and raised: "update_ret env (trace w @ es1 @ [Update x]) = Some e"
  have both: "es2 = [] \<and> fst (run_once env hh limit w) = Inl e"
  proof (cases "fetched env hh limit w")
    case (Inl e')
    from run_once_failed[OF Inl] split have "cycle_head hh limit w = es1 @ Update x # es2"
      by (simp add: events_between_emits)
    then show ?thesis by (auto simp add: cycle_head_def Cons_eq_append_conv)
  next
    case (Inr rs)
    show ?thesis
    proof (cases "rs = []")
      case True
      with Inr have "fetched env hh limit w = Inr []" by simp
      from run_once_empty[OF this] split
      have "cycle_head hh limit w @ [Log DEBUG (Index_query_time 0), Log INFO Did_not_get_any_work]
          = es1 @ Update x # es2"
        by (simp add: events_between_emits)
      then show ?thesis by (auto simp add: cycle_head_def Cons_eq_append_conv)
    next
      case False
      let ?f = "Fetch (snd (live hh (trace w @ [Live])) - 1) (fst (live hh (trace w @ [Live]))) limit"
      let ?l = "Log DEBUG (Index_query_time (length rs))"
      let ?w3 = "emits env (cycle_head hh limit w @ [?l]) w"
      let ?es = "events_between ?w3 (snd (update_replicas env hh rs ?w3))"
      have h: "cycle_head hh limit w @ [?l] = [Live, ?f, ?l]" by (simp add: cycle_head_def)
      have "[Live, ?f, ?l] @ ?es = es1 @ Update x # es2"
        using split by (simp add: run_once_batch_events[OF Inr False] cycle_head_def)
      then obtain es1' where es1': "es1 = [Live, ?f, ?l] @ es1'" "?es = es1' @ Update x # es2"
        using update_after_head[of ?f ?l ?es es1 x es2] by blast
      from raised es1'(1) have "update_ret env (trace ?w3 @ es1' @ [Update x]) = Some e"
        by (simp add: trace_emits h)
      with update_replicas_raise[of ?w3 env hh rs] es1'(2)
      have "es2 = [] \<and> fst (update_replicas env hh rs ?w3) = Inl e" by blast
      then show ?thesis by (simp add: run_once_batch_fst[OF Inr False])
    qed
  qed
  from both show "es2 = []" by simp
  from both show "fst (run_once env hh limit w) = Inl e" by simp
qed

theorem run_once_propagates_witness:
  "fetched failing_fetch (fixed_handler 0 4) 10 world0 = Inl (External ''query failed'') \<and>
   fst (run_once failing_fetch (fixed_handler 0 4) 10 world0) = Inl (External ''query failed'') \<and>
   events_between world0 (snd (run_once failing_fetch (fixed_handler 0 4) 10 world0))
     = [Live, Fetch 3 0 10] \<and>
   events_between world0
       (snd (run_once (failing_update (item ''b'') ten_items) (fixed_handler 0 4) 10 world0))
     = [Live, Fetch 3 0 10, Log DEBUG (Index_query_time 10),
        Live, Time, Update (item ''a''), Log DEBUG (Update_took ''a''), Live, Time]
       @ [Update (item ''b'')] \<and>
   update_ret (failing_update (item ''b'') ten_items)
       (trace world0 @ [Live, Fetch 3 0 10, Log DEBUG (Index_query_time 10),
        Live, Time, Update (item ''a''), Log DEBUG (Update_took ''a''), Live, Time]
       @ [Update (item ''b'')])
     = Some (External ''update failed'') \<and>
   fst (run_once (failing_update (item ''b'') ten_items) (fixed_handler 0 4) 10 world0)
     = Inl (External ''update failed'')"
proof -
  let ?env = "failing_update (item ''b'') ten_items"
  let ?es1 = "[Live, Fetch 3 0 10, Log DEBUG (Index_query_time 10),
        Live, Time, Update (item ''a''), Log DEBUG (Update_took ''a''), Live, Time]"
  have a: "fetched failing_fetch (fixed_handler 0 4) 10 world0 = Inl (External ''query failed'')"
    by code_simp
  have h: "cycle_head (fixed_handler 0 4) 10 world0 = [Live, Fetch 3 0 10]"
    by code_simp
  have b: "events_between world0 (snd (run_once ?env (fixed_handler 0 4) 10 world0))
      = ?es1 @ Update (item ''b'') # []"
    by code_simp
  have c: "update_ret ?env (trace world0 @ ?es1 @ [Update (item ''b'')])
      = Some (External ''update failed'')"
    by code_simp
  note p = run_once_propagates[of failing_fetch "fixed_handler 0 4" 10 world0]
  note q = run_once_propagates[of ?env "fixed_handler 0 4" 10 world0]
  from p a h have 1: "fst (run_once failing_fetch (fixed_handler 0 4) 10 world0)
      = Inl (External ''query failed'') \<and>
    events_between world0 (snd (run_once failing_fetch (fixed_handler 0 4) 10 world0))
      = [Live, Fetch 3 0 10]"
    by simp
  from q b c have 2: "fst (run_once ?env (fixed_handler 0 4) 10 world0)
      = Inl (External ''update failed'')"
    by blast
  from a 1 2 b c show ?thesis by simp
qed

section \<open>The driver\<close>

text \<open>
  Claim C5: when the schema check reports an old database, \<open>run\<close> raises
  \<open>DatabaseException\<close> after the logging setup and the check; it starts no thread and
  no daemon loop, so that the work source and the work applier are not called.
\<close>

theorem run_stale_schema:
  assumes "is_old_db env (trace w @ [Setup_logging DAEMON_NAME, Is_old_db])"
  shows "run env once threads sleep_time limit w =
     Some (Inl (DatabaseException stale_message),
           emits env [Setup_logging DAEMON_NAME, Is_old_db] w)"
  using assms by (simp add: run_def Let_def trace_emit emits_Cons emits_Nil)

theorem run_stale_schema_witness:
  "is_old_db stale_env (trace world0 @ [Setup_logging DAEMON_NAME, Is_old_db]) \<and>
   run stale_env False 4 10 1000 world0 =
     Some (Inl (DatabaseException stale_message),
           emits stale_env [Setup_logging DAEMON_NAME, Is_old_db] world0)"
proof -
  have a: "is_old_db stale_env (trace world0 @ [Setup_logging DAEMON_NAME, Is_old_db])"
    by (simp add: stale_env_def)
  from a run_stale_schema[OF a] show ?thesis by simp
qed

text \<open>
  Claim C7: with \<open>once\<close> true and a fresh schema, \<open>run\<close> is one call of
  \<open>collection_replica_update\<close>, made in the driver itself after the logging setup, the
  schema check and one log line, and its outcome is the outcome of \<open>run\<close>; no thread is
  started, and the number of threads asked for does not matter.
\<close>

theorem run_single_iteration:
  assumes "\<not> is_old_db env (trace w @ [Setup_logging DAEMON_NAME, Is_old_db])"
  shows "run env True threads sleep_time limit w =
     Some (collection_replica_update env True default_limit default_sleep_time
       (emits env [Setup_logging DAEMON_NAME, Is_old_db,
          Main_info ''main: executing one iteration only''] w))
   \<and> run env True threads sleep_time limit w = run env True threads' sleep_time limit w"
  using assms by (simp add: run_def Let_def trace_emit emits_Cons emits_Nil)

theorem run_single_iteration_witness:
  "\<not> is_old_db (quiet_env ten_items) (trace world0 @ [Setup_logging DAEMON_NAME, Is_old_db]) \<and>
   run (quiet_env ten_items) True 4 10 1000 world0 =
     Some (collection_replica_update (quiet_env ten_items) True default_limit default_sleep_time
       (emits (quiet_env ten_items) [Setup_logging DAEMON_NAME, Is_old_db,
          Main_info ''main: executing one iteration only''] world0)) \<and>
   run (quiet_env ten_items) True 4 10 1000 world0 = run (quiet_env ten_items) True 1 10 1000 world0"
proof -
  have a: "\<not> is_old_db (quiet_env ten_items)
      (trace world0 @ [Setup_logging DAEMON_NAME, Is_old_db])"
    by (simp add: quiet_env_def)
  from a run_single_iteration[OF a, of 4 10 1000 1] show ?thesis by blast
qed

text \<open>
  Claim C9: with \<open>once\<close> true and a fresh schema, the daemon loop gets the defaults of
  \<open>collection_replica_update\<close>, a sleep time of 10 and a cycle with limit 1000, whatever
  sleep time and limit are passed to \<open>run\<close>.
\<close>

theorem run_single_iteration_defaults:
  assumes "\<not> is_old_db env (trace w @ [Setup_logging DAEMON_NAME, Is_old_db])"
  shows "run env True threads sleep_time limit w =
     Some (run_daemon env True DAEMON_NAME 1 10 (\<lambda>hh. run_once env hh 1000)
       (emits env [Setup_logging DAEMON_NAME, Is_old_db,
          Main_info ''main: executing one iteration only''] w))"
  using assms
  by (simp add: run_def Let_def trace_emit emits_Cons emits_Nil collection_replica_update_def
      default_limit_def default_sleep_time_def)

theorem run_single_iteration_defaults_witness:
  "\<not> is_old_db (quiet_env ten_items) (trace world0 @ [Setup_logging DAEMON_NAME, Is_old_db]) \<and>
   run (quiet_env ten_items) True 4 3 5 world0 =
     Some (run_daemon (quiet_env ten_items) True DAEMON_NAME 1 10
       (\<lambda>hh. run_once (quiet_env ten_items) hh 1000)
       (emits (quiet_env ten_items) [Setup_logging DAEMON_NAME, Is_old_db,
          Main_info ''main: executing one iteration only''] world0))"
proof -
  have a: "\<not> is_old_db (quiet_env ten_items)
      (trace world0 @ [Setup_logging DAEMON_NAME, Is_old_db])"
    by (simp add: quiet_env_def)
  from a run_single_iteration_defaults[OF a, of 4 3 5] show ?thesis by simp
qed

text \<open>
  Claim C10: with \<open>once\<close> false, no thread asked for and a fresh schema, \<open>run\<close> starts
  no thread and raises \<open>IndexError\<close> when the wait looks at the first thread.
\<close>

theorem run_zero_threads:
  assumes "\<not> is_old_db env (trace w @ [Setup_logging DAEMON_NAME, Is_old_db])"
  shows "run env False 0 sleep_time limit w =
     Some (Inl IndexError,
           emits env [Setup_logging DAEMON_NAME, Is_old_db,
             Main_info ''main: starting threads'', Main_info ''main: waiting for interrupts''] w)"
  using assms
  by (simp add: run_def Let_def trace_emit emits_Cons emits_Nil wait_threads.simps[of _ "[]"])

theorem run_zero_threads_witness:
  "\<not> is_old_db (quiet_env ten_items) (trace world0 @ [Setup_logging DAEMON_NAME, Is_old_db]) \<and>
   run (quiet_env ten_items) False 0 10 1000 world0 =
     Some (Inl IndexError,
           emits (quiet_env ten_items) [Setup_logging DAEMON_NAME, Is_old_db,
             Main_info ''main: starting threads'', Main_info ''main: waiting for interrupts'']
             world0)"
proof -
  have a: "\<not> is_old_db (quiet_env ten_items)
      (trace world0 @ [Setup_logging DAEMON_NAME, Is_old_db])"
    by (simp add: quiet_env_def)
  from a run_zero_threads[OF a, of 10 1000] show ?thesis by simp
qed

text \<open>
  Claim C8 has the driver return only after every thread has ended. The wait looks at the
  first thread only: with two threads of which the first ends before the second, \<open>run\<close>
  returns after one round of joins while the second thread is alive.
\<close>

theorem run_returns_early:
  "run first_ends_early False 2 10 1000 world0 =
     Some (Inr (),
           emits first_ends_early [Setup_logging DAEMON_NAME, Is_old_db,
             Main_info ''main: starting threads'',
             Thread_start 0 False 10 1000, Thread_start 1 False 10 1000,
             Main_info ''main: waiting for interrupts'',
             Is_alive 0, Join 0, Join 1, Is_alive 0] world0)
   \<and> fst (thread_is_alive first_ends_early 1
        (emits first_ends_early [Setup_logging DAEMON_NAME, Is_old_db,
             Main_info ''main: starting threads'',
             Thread_start 0 False 10 1000, Thread_start 1 False 10 1000,
             Main_info ''main: waiting for interrupts'',
             Is_alive 0, Join 0, Join 1, Is_alive 0] world0))"
  by code_simp

end
